theory Spec2Isabelle
  imports Main "HOL-Library.Sublist" "HOL-Library.Log_Nat"
begin

section \<open>Python values used by \<open>ncurses_multi_ping.py\<close>\<close>

subsection \<open>Exceptions\<close>

text \<open>
  The exception classes that can reach the handlers of the program. \<open>CancelledError\<close>
  and \<open>KeyboardInterrupt\<close> derive from \<open>BaseException\<close> only (Python 3.8+, which
  the script requires), so \<open>except Exception\<close> does not catch them.
  \<open>asyncio.TimeoutError\<close> is not listed: where the source has a handler for it, the
  awaited call has an outcome of its own for it (\<open>TimedOut\<close>, \<open>TimeoutExpired\<close>).
\<close>

datatype exn = RuntimeError | OSError | ValueError | IndexError | CancelledError | KeyboardInterrupt

fun is_Exception :: "exn \<Rightarrow> bool" where
  "is_Exception CancelledError = False"
| "is_Exception KeyboardInterrupt = False"
| "is_Exception _ = True"

subsection \<open>Floats\<close>

text \<open>
  A Python float is an IEEE 754 binary64 value. A finite one is represented by the
  rational number it denotes (\<open>-0.0\<close> and \<open>0.0\<close>, which compare equal, are
  identified). \<open>round_double\<close> is rounding to the nearest double, ties to even, as
  \<open>float()\<close>, float literals and float arithmetic do: a 53 bit significand, exponents
  down to the subnormal spacing \<open>2^-1074\<close>, and overflow to infinity from \<open>2^1024\<close>.
\<close>

datatype pyfloat = Finite rat | PInf | NInf | NaN

definition pow2 :: "int \<Rightarrow> rat" where
  "pow2 e = (if 0 \<le> e then 2 ^ nat e else 1 / 2 ^ nat (- e))"

definition pow10 :: "int \<Rightarrow> rat" where
  "pow10 e = (if 0 \<le> e then 10 ^ nat e else 1 / 10 ^ nat (- e))"

text \<open>Rounding a rational to the nearest integer, a tie to the even neighbour.\<close>

definition rne :: "rat \<Rightarrow> int" where
  "rne x = (let n = \<lfloor>x\<rfloor>; r = x - of_int n
            in if r < 1 / 2 then n
               else if 1 / 2 < r then n + 1
               else if even n then n else n + 1)"

text \<open>
  The binary exponent of a positive rational \<open>q\<close>: the \<open>e\<close> with
  \<open>2^e \<le> q < 2^(e+1)\<close>, from the bit length of \<open>\<lfloor>q\<rfloor>\<close> when \<open>1 \<le> q\<close> and of
  \<open>\<lceil>1/q\<rceil> - 1\<close> otherwise.
\<close>

definition ilog2 :: "rat \<Rightarrow> int" where
  "ilog2 q = (if 1 \<le> q then int (floorlog 2 (nat \<lfloor>q\<rfloor>)) - 1
              else - int (floorlog 2 (nat (\<lceil>1 / q\<rceil> - 1))))"

text \<open>
  The exponent of the binade a double for \<open>q\<close> lies in, no smaller than the one of the
  subnormals, and \<open>q\<close> rounded to a multiple of the spacing of that binade.
\<close>

definition dexp :: "rat \<Rightarrow> int" where
  "dexp q = max (ilog2 \<bar>q\<bar>) (- 1022)"

definition dround :: "rat \<Rightarrow> rat" where
  "dround q = (let ulp = pow2 (dexp q - 52) in of_int (rne (q / ulp)) * ulp)"

definition round_double :: "rat \<Rightarrow> pyfloat" where
  "round_double q =
     (if q = 0 then Finite 0
      else let r = dround q
           in if 2 ^ 1024 \<le> r then PInf
              else if r \<le> - (2 ^ 1024) then NInf
              else Finite r)"

fun py_neg :: "pyfloat \<Rightarrow> pyfloat" where
  "py_neg (Finite a) = Finite (- a)"
| "py_neg PInf = NInf"
| "py_neg NInf = PInf"
| "py_neg NaN = NaN"

text \<open>Float addition \<open>a + b\<close> and subtraction \<open>a - b\<close>.\<close>

fun py_add :: "pyfloat \<Rightarrow> pyfloat \<Rightarrow> pyfloat" where
  "py_add (Finite a) (Finite b) = round_double (a + b)"
| "py_add NaN _ = NaN"
| "py_add _ NaN = NaN"
| "py_add PInf NInf = NaN"
| "py_add NInf PInf = NaN"
| "py_add PInf _ = PInf"
| "py_add _ PInf = PInf"
| "py_add NInf _ = NInf"
| "py_add _ NInf = NInf"

definition py_sub :: "pyfloat \<Rightarrow> pyfloat \<Rightarrow> pyfloat" where
  "py_sub a b = py_add a (py_neg b)"

text \<open>The comparisons \<open>a < b\<close> and \<open>a <= b\<close> of floats; both are false on a NaN.\<close>

fun py_less :: "pyfloat \<Rightarrow> pyfloat \<Rightarrow> bool" where
  "py_less (Finite a) (Finite b) = (a < b)"
| "py_less NaN _ = False"
| "py_less _ NaN = False"
| "py_less _ NInf = False"
| "py_less PInf _ = False"
| "py_less NInf _ = True"
| "py_less _ PInf = True"

fun py_le :: "pyfloat \<Rightarrow> pyfloat \<Rightarrow> bool" where
  "py_le (Finite a) (Finite b) = (a \<le> b)"
| "py_le NaN _ = False"
| "py_le _ NaN = False"
| "py_le NInf _ = True"
| "py_le _ PInf = True"
| "py_le _ NInf = False"
| "py_le PInf _ = False"

text \<open>
  The builtin \<open>max(a, b)\<close> of two arguments keeps \<open>a\<close> unless \<open>b > a\<close>.
\<close>

definition py_max :: "pyfloat \<Rightarrow> pyfloat \<Rightarrow> pyfloat" where
  "py_max a b = (if py_less a b then b else a)"

subsection \<open>Strings\<close>

text \<open>
  A \<open>str\<close> is a list of code points; \<^typ>\<open>char\<close> covers the code points 0 to 255.
  \<open>is_space\<close> is \<open>str.isspace\<close> on them, the set \<open>str.split()\<close> splits at.
\<close>

definition is_space :: "char \<Rightarrow> bool" where
  "is_space c = (let n = (of_char c :: nat)
                 in (9 \<le> n \<and> n \<le> 13) \<or> (28 \<le> n \<and> n \<le> 32) \<or> n = 133 \<or> n = 160)"

definition is_digit :: "char \<Rightarrow> bool" where
  "is_digit c = (let n = (of_char c :: nat) in 48 \<le> n \<and> n \<le> 57)"

definition digit_val :: "char \<Rightarrow> nat" where
  "digit_val c = of_char c - 48"

definition digits_val :: "string \<Rightarrow> nat" where
  "digits_val ds = foldl (\<lambda>a c. 10 * a + digit_val c) 0 ds"

definition lower :: "char \<Rightarrow> char" where
  "lower c = (let n = (of_char c :: nat) in if 65 \<le> n \<and> n \<le> 90 then char_of (n + 32) else c)"

text \<open>\<open>s.find(pat)\<close>: the least index at which \<open>pat\<close> occurs in \<open>s\<close>.\<close>

fun find_sub :: "string \<Rightarrow> string \<Rightarrow> nat option" where
  "find_sub pat [] = (if pat = [] then Some 0 else None)"
| "find_sub pat (c # cs) =
     (if prefix pat (c # cs) then Some 0 else map_option Suc (find_sub pat cs))"

text \<open>\<open>pat in s\<close>, and \<open>s.index(pat)\<close>, which raises \<open>ValueError\<close> when there is none.\<close>

definition py_in :: "string \<Rightarrow> string \<Rightarrow> bool" where
  "py_in pat s = (find_sub pat s \<noteq> None)"

definition py_index :: "string \<Rightarrow> string \<Rightarrow> exn + nat" where
  "py_index s pat = (case find_sub pat s of None \<Rightarrow> Inl ValueError | Some i \<Rightarrow> Inr i)"

text \<open>
  \<open>s.split()\<close>: the maximal runs of characters that are not whitespace.
\<close>

function py_split :: "string \<Rightarrow> string list" where
  "py_split s =
     (case dropWhile is_space s of
        [] \<Rightarrow> []
      | c # cs \<Rightarrow> takeWhile (\<lambda>x. \<not> is_space x) (c # cs)
                 # py_split (dropWhile (\<lambda>x. \<not> is_space x) (c # cs)))"
  by pat_completeness auto
termination
proof (relation "measure length")
  fix s :: string and c cs
  assume d: "dropWhile is_space s = c # cs"
  have "\<not> is_space c"
    using d hd_dropWhile [of is_space s] by auto
  then have "length (dropWhile (\<lambda>x. \<not> is_space x) (c # cs)) \<le> length cs"
    by (simp add: length_dropWhile_le)
  also have "length cs < length (dropWhile is_space s)"
    using d by simp
  also have "\<dots> \<le> length s"
    by (rule length_dropWhile_le)
  finally show "(dropWhile (\<lambda>x. \<not> is_space x) (c # cs), s) \<in> measure length"
    by simp
qed simp

declare py_split.simps [simp del]

text \<open>\<open>xs[0]\<close>, which raises \<open>IndexError\<close> on the empty list.\<close>

definition py_first :: "'a list \<Rightarrow> exn + 'a" where
  "py_first xs = (case xs of [] \<Rightarrow> Inl IndexError | x # _ \<Rightarrow> Inr x)"

subsection \<open>The builtin \<open>float\<close> on a string\<close>

text \<open>
  An underscore is accepted only between two digits; \<open>prev\<close> is the character before
  the rest of the string (the NUL character at the start).
\<close>

fun underscores_ok :: "char \<Rightarrow> string \<Rightarrow> bool" where
  "underscores_ok prev [] = (prev \<noteq> CHR ''_'')"
| "underscores_ok prev (c # cs) =
     (if c = CHR ''_'' then is_digit prev \<and> underscores_ok c cs
      else if prev = CHR ''_'' then is_digit c \<and> underscores_ok c cs
      else underscores_ok c cs)"

text \<open>An optional sign: whether it is a minus, and the rest.\<close>

definition split_sign :: "string \<Rightarrow> bool \<times> string" where
  "split_sign s =
     (case s of
        [] \<Rightarrow> (False, s)
      | c # cs \<Rightarrow> if c = CHR ''-'' then (True, cs)
                 else if c = CHR ''+'' then (False, cs)
                 else (False, s))"

text \<open>
  An unsigned decimal number: digits, an optional point and digits, with a digit on at
  least one side, and an optional exponent (\<open>e\<close> or \<open>E\<close>, an optional sign, at least one
  digit). The result is the number it denotes, \<open>None\<close> when the string is not of this form.
\<close>

definition parse_decimal :: "string \<Rightarrow> rat option" where
  "parse_decimal u =
     (let ip = takeWhile is_digit u;
          r1 = dropWhile is_digit u;
          (fp, r2) = (case r1 of
                        [] \<Rightarrow> ([], r1)
                      | c # cs \<Rightarrow> if c = CHR ''.''
                                 then (takeWhile is_digit cs, dropWhile is_digit cs)
                                 else ([], r1));
          m = of_nat (digits_val (ip @ fp))
      in if ip = [] \<and> fp = [] then None
         else (case r2 of
                 [] \<Rightarrow> Some (m * pow10 (- int (length fp)))
               | c # cs \<Rightarrow>
                   if c = CHR ''e'' \<or> c = CHR ''E''
                   then (let (eneg, ds) = split_sign cs;
                             ex = int (digits_val ds)
                         in if ds \<noteq> [] \<and> list_all is_digit ds
                            then Some (m * pow10 ((if eneg then - ex else ex)
                                                   - int (length fp)))
                            else None)
                   else None))"

text \<open>
  \<open>float(s)\<close> for a string without whitespace (the program passes a token that
  \<open>split()\<close> returned): \<open>ValueError\<close> unless, underscores between digits removed, \<open>s\<close>
  is an optionally signed \<open>inf\<close>, \<open>infinity\<close> or \<open>nan\<close> in any letter case, or an
  optionally signed decimal number, whose value is rounded to the nearest double.
\<close>

definition py_float :: "string \<Rightarrow> exn + pyfloat" where
  "py_float s =
     (if \<not> underscores_ok (CHR 0x00) s then Inl ValueError
      else let (neg, u) = split_sign (filter (\<lambda>c. c \<noteq> CHR ''_'') s);
               lu = map lower u
           in if lu = ''inf'' \<or> lu = ''infinity'' then Inr (if neg then NInf else PInf)
              else if lu = ''nan'' then Inr NaN
              else (case parse_decimal u of
                      None \<Rightarrow> Inl ValueError
                    | Some q \<Rightarrow> Inr (round_double (if neg then - q else q))))"

section \<open>The program\<close>

subsection \<open>Constants and \<open>HostStatus\<close>\<close>

text \<open>
  \<open>DEFAULT_INTERVAL = 2.0\<close> and the float literal \<open>0.2\<close> of lines 158 and 160.
  \<open>PING_TIMEOUT = 1\<close> enters the model as the argument \<open>str(PING_TIMEOUT)\<close>, that is
  \<open>"1"\<close>, of \<open>ping -W\<close>.
\<close>

definition DEFAULT_INTERVAL :: pyfloat where
  "DEFAULT_INTERVAL = round_double 2"

definition lit_0_2 :: pyfloat where
  "lit_0_2 = round_double (2 / 10)"

text \<open>
  \<open>last_result\<close> is \<open>None\<close>, \<open>True\<close> or \<open>False\<close> (unknown, up, down); \<open>last_time\<close> is
  the reading of \<open>datetime.now()\<close>, a number of clock ticks.
\<close>

record HostStatus =
  host :: string
  last_result :: "bool option"
  last_rtt :: "pyfloat option"
  last_time :: "nat option"

definition HostStatus_init :: "string \<Rightarrow> HostStatus" where
  "HostStatus_init h = \<lparr>host = h, last_result = None, last_rtt = None, last_time = None\<rparr>"

subsection \<open>\<open>ping_host\<close>\<close>

text \<open>
  Lines 58 to 69, on the decoded standard output \<open>out\<close>: the handler
  \<open>except Exception\<close> around the four statements of the \<open>try\<close> turns the
  \<open>ValueError\<close> of \<open>index\<close> and \<open>float\<close> and the \<open>IndexError\<close> of \<open>[0]\<close> into
  \<open>(True, None)\<close>.
\<close>

definition parse_rtt :: "string \<Rightarrow> exn + pyfloat" where
  "parse_rtt out =
     (case py_index out ''time='' of
        Inl e \<Rightarrow> Inl e
      | Inr i \<Rightarrow>
          (let idx = i + 5;
               rest = take 20 (drop idx out)
           in case py_first (py_split rest) of
                Inl e \<Rightarrow> Inl e
              | Inr rtt_str \<Rightarrow> py_float rtt_str))"

definition parse_output :: "string \<Rightarrow> bool \<times> pyfloat option" where
  "parse_output out =
     (if py_in ''time='' out
      then (case parse_rtt out of
              Inr rtt \<Rightarrow> (True, Some rtt)
            | Inl e \<Rightarrow> (True, None))
      else (False, None))"

text \<open>
  What one call of \<open>ping_host\<close> meets outside the program: the result of
  \<open>shutil.which("ping")\<close>; the exception \<open>create_subprocess_exec\<close> raises, if any;
  and how \<open>wait_for(proc.communicate(), timeout=PING_TIMEOUT + 2)\<close> ends: with the
  process's output (the text \<open>stdout.decode(errors="ignore")\<close> and the exit status),
  with \<open>asyncio.TimeoutError\<close>, or with another exception.
\<close>

datatype communicate = Completed string int | TimedOut | CommRaised exn

record probe_env =
  which_ping :: "string option"
  exec_raises :: "exn option"
  communicated :: communicate

text \<open>What the call does to the outside: the process it starts, and \<open>proc.kill()\<close>.\<close>

datatype action = Spawn "string list" | Kill

text \<open>
  \<open>if not ping_cmd\<close> holds for \<open>None\<close> and for the empty string. The exit status of the
  process is bound nowhere in the source.
\<close>

definition ping_host :: "probe_env \<Rightarrow> string \<Rightarrow> action list \<times> (exn + bool \<times> pyfloat option)" where
  "ping_host env h =
     (case which_ping env of
        None \<Rightarrow> ([], Inl RuntimeError)
      | Some ping_cmd \<Rightarrow>
          if ping_cmd = [] then ([], Inl RuntimeError)
          else (case exec_raises env of
                  Some e \<Rightarrow> ([], Inl e)
                | None \<Rightarrow>
                    (let spawn = Spawn [ping_cmd, ''-c'', ''1'', ''-W'', ''1'', h]
                     in case communicated env of
                          TimedOut \<Rightarrow> ([spawn, Kill], Inr (False, None))
                        | CommRaised e \<Rightarrow> ([spawn], Inl e)
                        | Completed out rc \<Rightarrow> ([spawn], Inr (parse_output out)))))"

subsection \<open>\<open>worker\<close>\<close>

text \<open>
  The shared objects: \<open>pause_flag['paused']\<close>, \<open>interval_ref['val']\<close> and whether
  \<open>interval_event\<close> is set.
\<close>

record control =
  paused :: bool
  interval_val :: pyfloat
  event_set :: bool

text \<open>
  The coroutine is suspended only in its two \<open>await\<close>s, so it runs in three atomic
  pieces. \<open>Probing\<close>: at the head of the loop, about to test the pause flag (line 75).
  \<open>InFlight\<close>: suspended in \<open>await ping_host(...)\<close> (line 77). \<open>Waiting\<close>: suspended in
  \<open>await asyncio.wait_for(interval_event.wait(), ...)\<close> (line 84). \<open>Terminated e\<close>: the
  exception \<open>e\<close> left the coroutine; \<open>Terminated CancelledError\<close> is a cancelled task.
\<close>

datatype phase = Probing | InFlight | Waiting | Terminated exn

record worker =
  status :: HostStatus
  phase :: phase

text \<open>Line 75: the test of the pause flag.\<close>

definition cycle_start :: "control \<Rightarrow> worker \<Rightarrow> worker" where
  "cycle_start c w = (if \<not> paused c then w\<lparr>phase := InFlight\<rparr> else w\<lparr>phase := Waiting\<rparr>)"

text \<open>Lines 80 to 82: the three assignments, with no \<open>await\<close> between them.\<close>

definition record_result :: "bool \<Rightarrow> pyfloat option \<Rightarrow> nat \<Rightarrow> HostStatus \<Rightarrow> HostStatus" where
  "record_result up rtt now hs = hs\<lparr>last_result := Some up, last_rtt := rtt, last_time := Some now\<rparr>"

text \<open>
  Lines 76 to 82, when \<open>ping_host\<close> ends as \<open>env\<close> says and the clock reads \<open>now\<close>:
  \<open>except Exception\<close> replaces an exception of class \<open>Exception\<close> by \<open>(False, None)\<close>;
  any other exception leaves the coroutine.
\<close>

definition probe_done :: "probe_env \<Rightarrow> nat \<Rightarrow> worker \<Rightarrow> action list \<times> worker" where
  "probe_done env now w =
     (let (acts, r) = ping_host env (host (status w))
      in case r of
           Inr (up, rtt) \<Rightarrow>
             (acts, w\<lparr>status := record_result up rtt now (status w), phase := Waiting\<rparr>)
         | Inl e \<Rightarrow>
             if is_Exception e
             then (acts, w\<lparr>status := record_result False None now (status w), phase := Waiting\<rparr>)
             else (acts, w\<lparr>phase := Terminated e\<rparr>))"

text \<open>
  Lines 83 to 87. The \<open>await\<close> returns when the event is set (\<open>EventFired\<close>), and
  \<open>interval_event.clear()\<close> follows; it raises \<open>asyncio.TimeoutError\<close> when the interval
  has passed (\<open>TimeoutExpired\<close>), which the handler drops; any other exception leaves
  the coroutine. Both ways back lead to the head of the loop.
\<close>

datatype wait_result = EventFired | TimeoutExpired | WaitRaised exn

definition wait_done :: "wait_result \<Rightarrow> control \<Rightarrow> worker \<Rightarrow> control \<times> worker" where
  "wait_done r c w =
     (case r of
        EventFired \<Rightarrow> (c\<lparr>event_set := False\<rparr>, w\<lparr>phase := Probing\<rparr>)
      | TimeoutExpired \<Rightarrow> (c, w\<lparr>phase := Probing\<rparr>)
      | WaitRaised e \<Rightarrow> (c, w\<lparr>phase := Terminated e\<rparr>))"

text \<open>
  One atomic piece of a worker, chosen by what the event loop delivers to it. A
  delivery that does not fit the phase of the worker changes nothing.
\<close>

datatype wevent = CycleStart | ProbeDone probe_env nat | WaitDone wait_result

fun worker_step :: "wevent \<Rightarrow> control \<Rightarrow> worker \<Rightarrow> control \<times> worker \<times> action list" where
  "worker_step CycleStart c w =
     (if phase w = Probing then (c, cycle_start c w, []) else (c, w, []))"
| "worker_step (ProbeDone env now) c w =
     (if phase w = InFlight
      then (let (acts, w') = probe_done env now w in (c, w', acts))
      else (c, w, []))"
| "worker_step (WaitDone r) c w =
     (if phase w = Waiting
      then (let (c', w') = wait_done r c w in (c', w', []))
      else (c, w, []))"

subsection \<open>The key handling of \<open>refresher\<close>, and \<open>main\<close>\<close>

definition ord :: "char \<Rightarrow> int" where
  "ord c = of_char c"

text \<open>
  Lines 148 to 160 for the value \<open>key\<close> of \<open>getch()\<close>: the new shared objects, and
  whether the loop goes on (\<open>False\<close> is the \<open>break\<close>).
\<close>

definition handle_key :: "int \<Rightarrow> control \<Rightarrow> control \<times> bool" where
  "handle_key key c =
     (if key = - 1 then (c, True)
      else if key = ord CHR ''q'' \<or> key = ord CHR ''Q'' then (c, False)
      else if key = ord CHR ''p'' \<or> key = ord CHR ''P'' then (c\<lparr>paused := \<not> paused c\<rparr>, True)
      else if key = ord CHR ''u'' \<or> key = ord CHR ''U'' then (c\<lparr>event_set := True\<rparr>, True)
      else if key = ord CHR ''+''
      then (c\<lparr>interval_val := py_max lit_0_2 (py_sub (interval_val c) lit_0_2)\<rparr>, True)
      else if key = ord CHR ''-''
      then (c\<lparr>interval_val := py_add (interval_val c) lit_0_2\<rparr>, True)
      else (c, True))"

text \<open>
  The whole program between two suspensions: the shared objects, one worker per host in
  the order of the command line, whether the loop of \<open>refresher\<close> is still running, and
  what the workers have done to the outside, each action with the index of its worker.
\<close>

record system =
  ctl :: control
  tasks :: "worker list"
  running :: bool
  log :: "(nat \<times> action) list"

text \<open>
  \<open>main\<close> and the first lines of \<open>refresher\<close>: the host records, the shared objects, an
  event that is not set, one task per host. Nothing else is done before the tasks exist.
\<close>

definition main :: "string list \<Rightarrow> system" where
  "main host_list =
     \<lparr>ctl = \<lparr>paused = False, interval_val = DEFAULT_INTERVAL, event_set = False\<rparr>,
      tasks = map (\<lambda>h. \<lparr>status = HostStatus_init h, phase = Probing\<rparr>) host_list,
      running = True,
      log = []\<rparr>"

text \<open>
  A step of the program: the loop of \<open>refresher\<close> reads a key, or the event loop resumes
  the worker with index \<open>i\<close>. After the \<open>break\<close> the loop is over and \<open>run\<close> follows the
  program no further: no step changes the state any more; what the cancellation of
  lines 163 to 166 does to a worker is \<open>worker_step\<close> on the \<open>CancelledError\<close> that
  reaches it. Which step comes next, and what it
  delivers, is for the event loop and the world outside to decide; the steps may come in
  any order here, also where the program runs two pieces of a worker without a
  suspension between them, so every run of the program is among the runs of \<open>run\<close>.
\<close>

datatype event = Key int | Worker nat wevent

fun sys_step :: "system \<Rightarrow> event \<Rightarrow> system" where
  "sys_step s (Key k) =
     (if running s
      then (let (c, continue) = handle_key k (ctl s) in s\<lparr>ctl := c, running := continue\<rparr>)
      else s)"
| "sys_step s (Worker i ev) =
     (if running s \<and> i < length (tasks s)
      then (let (c, w, acts) = worker_step ev (ctl s) (tasks s ! i)
            in s\<lparr>ctl := c, tasks := (tasks s)[i := w], log := log s @ map (Pair i) acts\<rparr>)
      else s)"

definition run :: "system \<Rightarrow> event list \<Rightarrow> system" where
  "run s evs = foldl sys_step s evs"

subsection \<open>Notions the properties are stated with\<close>

text \<open>The invariant of a host record: a round-trip time only beside the result up.\<close>

definition rtt_only_when_up :: "HostStatus \<Rightarrow> bool" where
  "rtt_only_when_up hs = (last_rtt hs \<noteq> None \<longrightarrow> last_result hs = Some True)"

text \<open>
  A failed invocation of the probe: the call of \<open>ping_host\<close> ends with an exception of
  class \<open>Exception\<close>, or its wait for the process runs into the time bound.
\<close>

definition probe_failed :: "probe_env \<Rightarrow> bool" where
  "probe_failed env =
     (case which_ping env of
        None \<Rightarrow> True
      | Some p \<Rightarrow>
          if p = [] then True
          else (case exec_raises env of
                  Some e \<Rightarrow> is_Exception e
                | None \<Rightarrow>
                    (case communicated env of
                       TimedOut \<Rightarrow> True
                     | CommRaised e \<Rightarrow> is_Exception e
                     | Completed out rc \<Rightarrow> False)))"

text \<open>The same key pressed \<open>n\<close> times.\<close>

definition presses :: "int \<Rightarrow> nat \<Rightarrow> control \<Rightarrow> control" where
  "presses key n c = ((\<lambda>c. fst (handle_key key c)) ^^ n) c"


section \<open>Evaluating floats and strings\<close>

lemma floor_rat_numeral_quot: "\<lfloor>numeral a / numeral b :: rat\<rfloor> = numeral a div numeral b"
  using floor_divide_of_int_eq [of "numeral a" "numeral b", where ?'a = rat] by simp

lemma ceiling_rat_numeral_quot:
  "\<lceil>numeral a / numeral b :: rat\<rceil> = - (- numeral a div numeral b)"
  unfolding ceiling_def
  using floor_divide_of_int_eq [of "- numeral a" "numeral b", where ?'a = rat] by simp

lemmas double_eval =
  round_double_def dround_def dexp_def ilog2_def compute_floorlog rne_def Let_def pow2_def
  floor_rat_numeral_quot ceiling_rat_numeral_quot

lemmas float_eval =
  py_float_def split_sign_def parse_decimal_def is_digit_def digits_val_def
  digit_val_def lower_def pow10_def

lemma lit_0_2_val: "lit_0_2 = Finite (3602879701896397 / 18014398509481984)"
  by (simp add: lit_0_2_def double_eval)

lemma DEFAULT_INTERVAL_val: "DEFAULT_INTERVAL = Finite 2"
  by (simp add: DEFAULT_INTERVAL_def double_eval)

lemma round_double_1_8: "round_double (18 / 10) = Finite (8106479329266893 / 4503599627370496)"
  by (simp add: double_eval)

lemma round_double_2_2: "round_double (22 / 10) = Finite (2476979795053773 / 1125899906842624)"
  by (simp add: double_eval)

lemma two_minus_lit: "py_sub (Finite 2) lit_0_2 = Finite (8106479329266893 / 4503599627370496)"
  by (simp add: py_sub_def lit_0_2_val double_eval)

lemma two_plus_lit: "py_add (Finite 2) lit_0_2 = Finite (2476979795053773 / 1125899906842624)"
  by (simp add: lit_0_2_val double_eval)

lemma py_float_17_3: "py_float ''17.3'' = Inr (round_double (173 / 10))"
  by (simp add: float_eval)

lemma py_float_abc: "py_float ''abc'' = Inl ValueError"
  by (simp add: float_eval)

text \<open>
  The float model on values Python is known for: \<open>0.1 + 0.2\<close> is
  \<open>0.30000000000000004\<close> and not \<open>0.3\<close>; \<open>float("9007199254740993")\<close> is
  \<open>9007199254740992.0\<close>, the tie going to the even neighbour; \<open>float("1e400")\<close> is
  \<open>inf\<close>; \<open>float("5e-324")\<close> is the least positive double and \<open>float("2.4e-324")\<close>
  is \<open>0.0\<close>.
\<close>

lemma tenth_plus_fifth:
  "py_add (round_double (1 / 10)) (round_double (2 / 10)) = round_double (30000000000000004 / 10 ^ 17)
   \<and> round_double (30000000000000004 / 10 ^ 17) \<noteq> round_double (3 / 10)"
  by (simp add: double_eval)

lemma tie_to_even: "py_float ''9007199254740993'' = Inr (Finite 9007199254740992)"
  by (simp add: float_eval double_eval)

lemma float_overflow: "py_float ''1e400'' = Inr PInf"
  by (simp add: float_eval double_eval)

lemma float_smallest: "py_float ''5e-324'' = Inr (Finite (1 / 2 ^ 1074))"
  by (simp add: float_eval double_eval)

lemma float_underflow: "py_float ''2.4e-324'' = Inr (Finite 0)"
  by (simp add: float_eval double_eval)

section \<open>Rounding is monotone\<close>

text \<open>
  \<open>ilog2\<close> is the binary exponent (\<open>ilog2_bounds\<close>), and rounding to the nearest
  double keeps the order of the rationals (\<open>round_double_mono\<close>).
\<close>

lemma pow2_powi: "pow2 e = 2 powi e"
  by (simp add: pow2_def power_int_def inverse_eq_divide power_one_over)

lemma pow2_pos: "0 < pow2 e"
  by (simp add: pow2_powi)

lemma pow2_add: "pow2 (a + b) = pow2 a * pow2 b"
  by (simp add: pow2_powi power_int_add)

lemma pow2_mono: "a \<le> b \<Longrightarrow> pow2 a \<le> pow2 b"
  by (simp add: pow2_powi power_int_increasing)

lemma pow2_less_exp: "pow2 a < pow2 b \<Longrightarrow> a < b"
  using pow2_mono [of b a] by (cases "a < b") auto

lemma pow2_nat: "pow2 (int n) = 2 ^ n"
  by (simp add: pow2_def)

lemma pow2_neg_nat: "pow2 (- int n) = 1 / 2 ^ n"
  by (auto simp: pow2_def)

lemma rne_of_int: "rne (of_int n) = n"
  by (simp add: rne_def)

lemma rne_range: "\<lfloor>x\<rfloor> \<le> rne x \<and> rne x \<le> \<lfloor>x\<rfloor> + 1"
  by (simp add: rne_def Let_def)

lemma rne_mono:
  assumes "x \<le> y"
  shows "rne x \<le> rne y"
proof (cases "\<lfloor>x\<rfloor> = \<lfloor>y\<rfloor>")
  case True
  have "x - of_int \<lfloor>x\<rfloor> \<le> y - of_int \<lfloor>x\<rfloor>"
    using assms by simp
  then show ?thesis
    using True by (auto simp: rne_def Let_def)
next
  case False
  then have "\<lfloor>x\<rfloor> < \<lfloor>y\<rfloor>"
    using floor_mono [OF assms] by simp
  then show ?thesis
    using rne_range [of x] rne_range [of y] by linarith
qed

lemma rne_neg: "rne (- x) = - rne x"
proof (cases "x = of_int \<lfloor>x\<rfloor>")
  case True
  then show ?thesis
    using rne_of_int [of "\<lfloor>x\<rfloor>"] rne_of_int [of "- \<lfloor>x\<rfloor>"] by (metis of_int_minus)
next
  case False
  define n where "n = \<lfloor>x\<rfloor>"
  define r where "r = x - of_int n"
  have r: "0 < r" "r < 1"
    using False unfolding r_def n_def by linarith+
  have "\<lceil>x\<rceil> = n + 1"
    using False by (simp add: ceiling_altdef n_def)
  then have f: "\<lfloor>- x\<rfloor> = - n - 1"
    by (simp add: ceiling_def)
  have r': "- x - of_int (- n - 1) = 1 - r"
    by (simp add: r_def)
  have a: "rne x = (if r < 1 / 2 then n else if 1 / 2 < r then n + 1
                     else if even n then n else n + 1)"
    by (simp add: rne_def Let_def n_def r_def)
  have b: "rne (- x) = (if 1 - r < 1 / 2 then - n - 1 else if 1 / 2 < 1 - r then - n
                     else if even (- n - 1) then - n - 1 else - n)"
    unfolding rne_def Let_def f r' by simp
  consider "r < 1 / 2" | "1 / 2 < r" | "r = 1 / 2"
    by linarith
  then show ?thesis
  proof cases
    case 1
    then show ?thesis unfolding a b by simp
  next
    case 2
    then show ?thesis unfolding a b by simp
  next
    case 3
    then show ?thesis unfolding a b by simp
  qed
qed

lemma floorlog2_bounds:
  assumes "0 < m"
  shows "0 < floorlog 2 m" "(2::rat) ^ (floorlog 2 m - 1) \<le> of_nat m"
    "(of_nat m :: rat) + 1 \<le> 2 ^ floorlog 2 m"
proof -
  have b: "2 ^ (floorlog 2 m - 1) \<le> m" "m < 2 ^ floorlog 2 m"
    using floorlog_bounds [of m 2] assms by simp_all
  show "0 < floorlog 2 m"
    using assms by (simp add: floorlog_def)
  have "(of_nat (2 ^ (floorlog 2 m - 1)) :: rat) \<le> of_nat m"
    using b(1) by (rule of_nat_mono)
  then show "(2::rat) ^ (floorlog 2 m - 1) \<le> of_nat m"
    by simp
  have "m + 1 \<le> 2 ^ floorlog 2 m"
    using b(2) by simp
  then have "(of_nat (m + 1) :: rat) \<le> of_nat (2 ^ floorlog 2 m)"
    by (rule of_nat_mono)
  then show "(of_nat m :: rat) + 1 \<le> 2 ^ floorlog 2 m"
    by simp
qed

lemma ilog2_bounds:
  assumes "0 < q"
  shows "pow2 (ilog2 q) \<le> q \<and> q < pow2 (ilog2 q + 1)"
proof (cases "1 \<le> q")
  case True
  define m where "m = nat \<lfloor>q\<rfloor>"
  have fq: "1 \<le> \<lfloor>q\<rfloor>"
    using True by (simp add: le_floor_iff)
  then have m0: "0 < m"
    by (simp add: m_def)
  have mq: "(of_nat m :: rat) = of_int \<lfloor>q\<rfloor>"
    using fq by (simp add: m_def)
  have m: "of_nat m \<le> q" "q < of_nat m + 1"
    unfolding mq by linarith+
  note fl = floorlog2_bounds [OF m0]
  have i: "ilog2 q = int (floorlog 2 m - 1)"
    using True fl(1) by (simp add: ilog2_def m_def)
  have i1: "ilog2 q + 1 = int (floorlog 2 m)"
    using i fl(1) by simp
  have "pow2 (ilog2 q) \<le> of_nat m"
    unfolding i pow2_nat by (rule fl(2))
  moreover have "of_nat m + 1 \<le> pow2 (ilog2 q + 1)"
    unfolding i1 pow2_nat by (rule fl(3))
  ultimately show ?thesis
    using m by linarith
next
  case False
  define x where "x = 1 / q"
  have x: "1 < x"
    using assms False by (simp add: x_def)
  have qx: "q = 1 / x"
    by (simp add: x_def)
  define m where "m = nat (\<lceil>x\<rceil> - 1)"
  have c: "2 \<le> \<lceil>x\<rceil>"
    using x by (simp add: le_ceiling_iff)
  then have m0: "0 < m"
    by (simp add: m_def)
  have mq: "(of_nat m :: rat) = of_int \<lceil>x\<rceil> - 1"
    using c by (simp add: m_def)
  have m: "of_nat m < x" "x \<le> of_nat m + 1"
    unfolding mq by linarith+
  note fl = floorlog2_bounds [OF m0]
  have i: "ilog2 q = - int (floorlog 2 m)"
    using False by (simp add: ilog2_def m_def x_def)
  have i1: "ilog2 q + 1 = - int (floorlog 2 m - 1)"
    using i fl(1) by simp
  have x1: "x \<le> 2 ^ floorlog 2 m"
    using m(2) fl(3) by linarith
  have x2: "2 ^ (floorlog 2 m - 1) < x"
    using m(1) fl(2) by linarith
  have "1 / 2 ^ floorlog 2 m \<le> 1 / x"
    using x x1 by (intro divide_left_mono) simp_all
  then have "pow2 (- int (floorlog 2 m)) \<le> q"
    unfolding pow2_neg_nat by (simp add: x_def)
  then have lo: "pow2 (ilog2 q) \<le> q"
    by (simp only: i)
  have "1 / x < 1 / 2 ^ (floorlog 2 m - 1)"
    using x x2 by (intro divide_strict_left_mono) simp_all
  then have "q < pow2 (- int (floorlog 2 m - 1))"
    unfolding pow2_neg_nat by (simp add: x_def)
  then have hi: "q < pow2 (ilog2 q + 1)"
    by (simp only: i1)
  show ?thesis
    using lo hi by simp
qed

lemma pow2_numeral: "pow2 (numeral k) = 2 ^ numeral k"
  by (simp add: pow2_def)

lemma ilog2_mono:
  assumes "0 < a" "a \<le> b"
  shows "ilog2 a \<le> ilog2 b"
proof -
  have "pow2 (ilog2 a) \<le> a" "b < pow2 (ilog2 b + 1)"
    using ilog2_bounds [of a] ilog2_bounds [of b] assms by simp_all
  then have "pow2 (ilog2 a) < pow2 (ilog2 b + 1)"
    using assms by linarith
  then show ?thesis
    using pow2_less_exp by fastforce
qed

lemma dround_zero: "dround 0 = 0"
  by (simp add: dround_def rne_def)

lemma dround_neg: "dround (- q) = - dround q"
  by (simp add: dround_def dexp_def Let_def rne_neg)

lemma dround_nonneg:
  assumes "0 \<le> q"
  shows "0 \<le> dround q"
proof -
  have "0 \<le> q / pow2 (dexp q - 52)"
    using assms pow2_pos [of "dexp q - 52"] by simp
  then have "rne 0 \<le> rne (q / pow2 (dexp q - 52))"
    by (rule rne_mono)
  then have "0 \<le> rne (q / pow2 (dexp q - 52))"
    by (simp add: rne_def)
  then show ?thesis
    using pow2_pos [of "dexp q - 52"] by (simp add: dround_def Let_def)
qed

lemma dround_mono_pos:
  assumes "0 < a" "a \<le> b"
  shows "dround a \<le> dround b"
proof -
  define ea where "ea = dexp a"
  define eb where "eb = dexp b"
  define ua where "ua = pow2 (ea - 52)"
  define ub where "ub = pow2 (eb - 52)"
  have pos: "0 < ua" "0 < ub"
    by (simp_all add: ua_def ub_def pow2_pos)
  have da: "dround a = of_int (rne (a / ua)) * ua"
    and db: "dround b = of_int (rne (b / ub)) * ub"
    by (simp_all add: dround_def Let_def ua_def ub_def ea_def eb_def)
  have le: "ea \<le> eb"
    using ilog2_mono [of a b] assms by (simp add: ea_def eb_def dexp_def)
  show ?thesis
  proof (cases "ea = eb")
    case True
    then have "ua = ub"
      by (simp add: ua_def ub_def)
    moreover have "rne (a / ub) \<le> rne (b / ub)"
      using assms pos by (intro rne_mono) (simp add: divide_right_mono)
    ultimately show ?thesis
      using pos by (simp add: da db)
  next
    case False
    then have lt: "ea + 1 \<le> eb"
      using le by simp
    have "ilog2 a \<le> ea"
      using assms by (simp add: ea_def dexp_def)
    then have "pow2 (ilog2 a + 1) \<le> pow2 (ea + 1)"
      by (intro pow2_mono) simp
    then have a_hi: "a \<le> pow2 (ea + 1)"
      using ilog2_bounds [of a] assms by simp
    have top: "pow2 (ea + 1) = 2 ^ 53 * ua"
      using pow2_add [of "ea - 52" 53] by (simp add: ua_def pow2_numeral add.commute mult.commute)
    have "a \<le> 2 ^ 53 * ua"
      using a_hi unfolding top .
    then have "a / ua \<le> of_int (2 ^ 53)"
      using pos by (simp add: field_simps)
    then have "rne (a / ua) \<le> rne (of_int (2 ^ 53))"
      by (rule rne_mono)
    then have "rne (a / ua) \<le> 2 ^ 53"
      by (simp only: rne_of_int)
    then have "(of_int (rne (a / ua)) :: rat) \<le> of_int (2 ^ 53)"
      by (simp only: of_int_le_iff)
    then have "dround a \<le> 2 ^ 53 * ua"
      using pos by (simp add: da)
    moreover have "2 ^ 53 * ua \<le> pow2 eb"
      using pow2_mono [OF lt] unfolding top .
    ultimately have one: "dround a \<le> pow2 eb"
      by linarith
    have "- 1022 < eb"
      using lt by (simp add: ea_def dexp_def)
    then have "eb = ilog2 b"
      using assms by (simp add: eb_def dexp_def max_def split: if_splits)
    then have b_lo: "pow2 eb \<le> b"
      using ilog2_bounds [of b] assms by simp
    have bot: "pow2 eb = 2 ^ 52 * ub"
      using pow2_add [of "eb - 52" 52] by (simp add: ub_def pow2_numeral add.commute mult.commute)
    have "2 ^ 52 * ub \<le> b"
      using b_lo unfolding bot .
    then have "of_int (2 ^ 52) \<le> b / ub"
      using pos by (simp add: field_simps)
    then have "rne (of_int (2 ^ 52)) \<le> rne (b / ub)"
      by (rule rne_mono)
    then have "2 ^ 52 \<le> rne (b / ub)"
      by (simp only: rne_of_int)
    then have "(of_int (2 ^ 52) :: rat) \<le> of_int (rne (b / ub))"
      by (simp only: of_int_le_iff)
    then have "2 ^ 52 * ub \<le> dround b"
      using pos by (simp add: db)
    then show ?thesis
      using one unfolding bot by linarith
  qed
qed

lemma dround_mono:
  assumes "a \<le> b"
  shows "dround a \<le> dround b"
proof -
  consider "0 < a" | "a \<le> 0" "0 \<le> b" | "b < 0"
    using assms by linarith
  then show ?thesis
  proof cases
    case 1
    then show ?thesis using assms by (rule dround_mono_pos)
  next
    case 2
    have "dround a \<le> 0"
      using dround_nonneg [of "- a"] 2(1) by (simp add: dround_neg)
    then show ?thesis
      using dround_nonneg [OF 2(2)] by simp
  next
    case 3
    then have "dround (- b) \<le> dround (- a)"
      using assms by (intro dround_mono_pos) simp_all
    then show ?thesis
      by (simp add: dround_neg)
  qed
qed

lemma round_double_dround:
  "round_double q = (if 2 ^ 1024 \<le> dround q then PInf
                     else if dround q \<le> - (2 ^ 1024) then NInf
                     else Finite (dround q))"
  by (simp add: round_double_def Let_def dround_zero)

lemma round_double_mono: "a \<le> b \<Longrightarrow> py_le (round_double a) (round_double b)"
  using dround_mono [of a b] by (simp add: round_double_dround)

section \<open>Searching and splitting\<close>

lemma find_sub_None_iff: "find_sub pat s = None \<longleftrightarrow> \<not> sublist pat s"
  by (induction s) (auto simp: sublist_Cons_right)

lemma py_in_iff_sublist: "py_in pat s \<longleftrightarrow> sublist pat s"
  by (simp add: py_in_def find_sub_None_iff)

text \<open>
  No occurrence of the marker starts inside a text and ends inside a marker that
  follows the text: no proper suffix of \<open>time=\<close> is a prefix of it.
\<close>

lemma marker_no_overlap:
  assumes "\<not> prefix ''time='' (c # cs)"
  shows "\<not> prefix ''time='' ((c # cs) @ ''time='' @ rest)"
proof
  assume "prefix ''time='' ((c # cs) @ ''time='' @ rest)"
  then have "prefix ''time='' (c # cs) \<or>
      (\<exists>us. ''time='' = (c # cs) @ us \<and> prefix us (''time='' @ rest))"
    by (simp only: prefix_append)
  then obtain us where us: "''time='' = (c # cs) @ us" "prefix us (''time='' @ rest)"
    using assms by blast
  from us(1) have "us \<in> {''ime='', ''me='', ''e='', ''='', []}"
    by (auto simp: Cons_eq_append_conv append_eq_Cons_conv)
  with us assms show False
    by auto
qed

lemma find_sub_first:
  "\<not> sublist ''time='' pre \<Longrightarrow> find_sub ''time='' (pre @ ''time='' @ rest) = Some (length pre)"
proof (induction pre)
  case Nil
  show ?case by simp
next
  case (Cons c cs)
  from Cons.prems have np: "\<not> prefix ''time='' (c # cs)" and ns: "\<not> sublist ''time='' cs"
    by (auto simp: sublist_Cons_right)
  have "\<not> prefix ''time='' (c # cs @ ''time='' @ rest)"
    using marker_no_overlap [OF np, of rest] by simp
  then show ?case
    using Cons.IH [OF ns] by simp
qed

lemma split_first_token:
  assumes "tok \<noteq> []" "\<forall>x \<in> set tok. \<not> is_space x" "is_space sp"
  shows "py_first (py_split (tok @ sp # xs)) = Inr tok"
proof -
  obtain t ts where tok: "tok = t # ts"
    using assms(1) by (cases tok) auto
  have d: "dropWhile is_space (tok @ sp # xs) = tok @ sp # xs"
    using assms(2) tok by simp
  have t: "takeWhile (\<lambda>x. \<not> is_space x) (tok @ sp # xs) = tok"
    using assms(2,3) by simp
  show ?thesis
    using d t tok by (subst py_split.simps) (simp add: py_first_def)
qed

text \<open>
  The parsing rule: when the first marker is followed by a token of fewer than 20
  characters and a whitespace character, the round-trip time is \<open>float\<close> of the token.
\<close>

lemma parse_rtt_at_marker:
  assumes "\<not> sublist ''time='' pre" "tok \<noteq> []" "\<forall>x \<in> set tok. \<not> is_space x" "is_space sp"
    "length tok < 20"
  shows "parse_rtt (pre @ ''time='' @ tok @ sp # post) = py_float tok"
proof -
  have "take 20 (tok @ sp # post) = tok @ sp # take (19 - length tok) post"
    using assms(5) by (simp add: take_Cons')
  then show ?thesis
    using find_sub_first [OF assms(1), of "tok @ sp # post"]
      split_first_token [OF assms(2,3,4)]
    by (simp add: parse_rtt_def py_index_def)
qed

lemma parse_output_no_marker: "\<not> sublist ''time='' out \<Longrightarrow> parse_output out = (False, None)"
  by (simp add: parse_output_def py_in_iff_sublist)

lemma parse_output_17_3:
  assumes "\<not> sublist ''time='' pre"
  shows "parse_output (pre @ ''time=17.3 ms'' @ post) = (True, Some (round_double (173 / 10)))"
proof -
  have "parse_rtt (pre @ ''time='' @ ''17.3'' @ CHR '' '' # (''ms'' @ post)) = py_float ''17.3''"
    by (rule parse_rtt_at_marker [OF assms]) (simp_all add: is_space_def)
  then have "parse_rtt (pre @ ''time=17.3 ms'' @ post) = Inr (round_double (173 / 10))"
    by (simp add: py_float_17_3)
  moreover have "py_in ''time='' (pre @ ''time=17.3 ms'' @ post)"
    unfolding py_in_iff_sublist sublist_def
    by (intro exI [of _ pre] exI [of _ "''17.3 ms'' @ post"]) simp
  ultimately show ?thesis
    by (simp add: parse_output_def)
qed

lemma parse_output_abc:
  assumes "\<not> sublist ''time='' pre"
  shows "parse_output (pre @ ''time=abc ms'' @ post) = (True, None)"
proof -
  have "parse_rtt (pre @ ''time='' @ ''abc'' @ CHR '' '' # (''ms'' @ post)) = py_float ''abc''"
    by (rule parse_rtt_at_marker [OF assms]) (simp_all add: is_space_def)
  then have "parse_rtt (pre @ ''time=abc ms'' @ post) = Inl ValueError"
    by (simp add: py_float_abc)
  moreover have "py_in ''time='' (pre @ ''time=abc ms'' @ post)"
    unfolding py_in_iff_sublist sublist_def
    by (intro exI [of _ pre] exI [of _ "''abc ms'' @ post"]) simp
  ultimately show ?thesis
    by (simp add: parse_output_def)
qed

section \<open>Steps of the program\<close>

lemma parse_output_up_iff: "fst (parse_output out) = sublist ''time='' out"
  by (simp add: parse_output_def py_in_iff_sublist split: sum.splits)

lemma probe_failed_result:
  assumes "probe_failed env"
  shows "\<exists>acts. ping_host env h = (acts, Inr (False, None))
           \<or> (\<exists>e. ping_host env h = (acts, Inl e) \<and> is_Exception e)"
  using assms
  by (auto simp: probe_failed_def ping_host_def
      split: option.splits if_splits communicate.splits)

lemma handle_key_u: "handle_key (ord CHR ''u'') c = (c\<lparr>event_set := True\<rparr>, True)"
  by (simp add: handle_key_def ord_def)

lemma handle_key_p: "handle_key (ord CHR ''p'') c = (c\<lparr>paused := \<not> paused c\<rparr>, True)"
  by (simp add: handle_key_def ord_def)

lemma handle_key_plus:
  "handle_key (ord CHR ''+'') c
     = (c\<lparr>interval_val := py_max lit_0_2 (py_sub (interval_val c) lit_0_2)\<rparr>, True)"
  by (simp add: handle_key_def ord_def)

lemma handle_key_minus:
  "handle_key (ord CHR ''-'') c = (c\<lparr>interval_val := py_add (interval_val c) lit_0_2\<rparr>, True)"
  by (simp add: handle_key_def ord_def)

lemma running_True_id: "running s \<Longrightarrow> s\<lparr>running := True\<rparr> = s"
  by (cases s) simp

lemma phase_upd_id: "phase w = ph \<Longrightarrow> w\<lparr>phase := ph\<rparr> = w"
  by (cases w) simp

lemma missing_ping_raises:
  "which_ping env = None \<or> which_ping env = Some [] \<Longrightarrow> ping_host env h = ([], Inl RuntimeError)"
  by (auto simp: ping_host_def)

section \<open>Example states\<close>

lemma ex_inflight:
  "run (main [''10.0.0.1'']) [Worker 0 CycleStart]
     = \<lparr>ctl = \<lparr>paused = False, interval_val = DEFAULT_INTERVAL, event_set = False\<rparr>,
        tasks = [\<lparr>status = HostStatus_init ''10.0.0.1'', phase = InFlight\<rparr>],
        running = True, log = []\<rparr>"
  by (simp add: run_def main_def cycle_start_def)


lemma ex_paused_waiting:
  "run (main [''10.0.0.1'']) [Key (ord CHR ''p''), Worker 0 CycleStart]
     = \<lparr>ctl = \<lparr>paused = True, interval_val = DEFAULT_INTERVAL, event_set = False\<rparr>,
        tasks = [\<lparr>status = HostStatus_init ''10.0.0.1'', phase = Waiting\<rparr>],
        running = True, log = []\<rparr>"
  by (simp add: run_def main_def handle_key_p cycle_start_def)

lemma handle_key_q: "handle_key (ord CHR ''q'') c = (c, False)"
  by (simp add: handle_key_def ord_def)

lemma kill_only_on_timeout:
  "Kill \<in> set (fst (ping_host env h))
     \<longleftrightarrow> (\<exists>p. which_ping env = Some p \<and> p \<noteq> [] \<and> exec_raises env = None
               \<and> communicated env = TimedOut)"
  by (auto simp: ping_host_def Let_def split: option.splits communicate.splits)

lemma ex_quit_inflight:
  "run (main [''10.0.0.1'']) [Worker 0 CycleStart, Key (ord CHR ''q'')]
     = \<lparr>ctl = \<lparr>paused = False, interval_val = DEFAULT_INTERVAL, event_set = False\<rparr>,
        tasks = [\<lparr>status = HostStatus_init ''10.0.0.1'', phase = InFlight\<rparr>],
        running = False, log = []\<rparr>"
  by (simp add: run_def main_def handle_key_q cycle_start_def)

section \<open>The invariant of the host records\<close>

lemma parse_output_rtt_up: "parse_output out = (up, Some r) \<Longrightarrow> up"
  by (auto simp: parse_output_def split: if_splits sum.splits)

lemma ping_host_rtt_up: "snd (ping_host env h) = Inr (up, Some r) \<Longrightarrow> up"
  by (auto simp: ping_host_def Let_def dest: parse_output_rtt_up
      split: option.splits if_splits communicate.splits)

lemma probe_done_keeps_inv:
  assumes "rtt_only_when_up (status w)"
  shows "rtt_only_when_up (status (snd (probe_done env now w)))"
proof (cases "snd (ping_host env (host (status w)))")
  case (Inl e)
  then show ?thesis
    using assms
    by (cases "ping_host env (host (status w))")
      (simp add: probe_done_def record_result_def rtt_only_when_up_def)
next
  case (Inr r)
  obtain up rtt where r: "r = (up, rtt)"
    by (cases r)
  have "rtt \<noteq> None \<longrightarrow> up"
    using ping_host_rtt_up [of env "host (status w)" up] Inr r by auto
  then show ?thesis
    using Inr r
    by (cases "ping_host env (host (status w))")
      (auto simp: probe_done_def record_result_def rtt_only_when_up_def)
qed

lemma worker_step_keeps_inv:
  assumes "rtt_only_when_up (status w)"
  shows "rtt_only_when_up (status (fst (snd (worker_step ev c w))))"
proof (cases ev)
  case CycleStart
  then show ?thesis using assms by (simp add: cycle_start_def)
next
  case (ProbeDone env now)
  then show ?thesis
    using assms probe_done_keeps_inv [OF assms, of env now]
    by (simp add: split_beta)
next
  case (WaitDone r)
  then show ?thesis using assms by (simp add: wait_done_def split: wait_result.splits)
qed

lemma sys_step_keeps_inv:
  assumes "\<forall>w \<in> set (tasks s). rtt_only_when_up (status w)"
  shows "\<forall>w \<in> set (tasks (sys_step s ev)). rtt_only_when_up (status w)"
proof (cases ev)
  case (Key k)
  then show ?thesis using assms by (simp add: split_beta)
next
  case (Worker i wev)
  show ?thesis
  proof (cases "running s \<and> i < length (tasks s)")
    case False
    then show ?thesis using assms Worker by auto
  next
    case True
    then have "rtt_only_when_up (status (tasks s ! i))"
      using assms by simp
    then have "rtt_only_when_up (status (fst (snd (worker_step wev (ctl s) (tasks s ! i)))))"
      by (rule worker_step_keeps_inv)
    then show ?thesis
      using assms Worker True
      by (auto simp: split_beta dest!: subsetD [OF set_update_subset_insert])
  qed
qed

lemma run_keeps_inv:
  "\<forall>w \<in> set (tasks s). rtt_only_when_up (status w) \<Longrightarrow>
   \<forall>w \<in> set (tasks (run s evs)). rtt_only_when_up (status w)"
  unfolding run_def
proof (induction evs arbitrary: s)
  case Nil
  then show ?case by simp
next
  case (Cons ev evs)
  show ?case
    using Cons.IH [OF sys_step_keeps_inv [OF Cons.prems, of ev]] by simp
qed

section \<open>Steps while the pause flag is set\<close>







section \<open>The interval keys\<close>

lemma py_le_py_max: "py_le (Finite a) (py_max (Finite a) x)"
  by (cases x) (simp_all add: py_max_def)

lemma floor_after_plus: "py_le lit_0_2 (interval_val (fst (handle_key (ord CHR ''+'') c)))"
  by (simp add: handle_key_plus lit_0_2_val py_le_py_max)

lemma presses_Suc: "presses k (Suc n) c = fst (handle_key k (presses k n c))"
  by (simp add: presses_def)

lemma floor_after_presses:
  "py_le lit_0_2 (interval_val (presses (ord CHR ''+'') n (ctl (main host_list))))"
proof (cases n)
  case 0
  then show ?thesis
    by (simp add: presses_def main_def DEFAULT_INTERVAL_val lit_0_2_val)
next
  case (Suc m)
  then show ?thesis
    by (simp only: presses_Suc floor_after_plus)
qed

lemma one_plus_press:
  "interval_val (presses (ord CHR ''+'') 1 (ctl (main host_list))) = round_double (18 / 10)"
proof -
  have "py_less lit_0_2 (py_sub (Finite 2) lit_0_2)"
    by (simp add: two_minus_lit) (simp add: lit_0_2_val)
  then show ?thesis
    by (simp add: presses_def handle_key_plus main_def DEFAULT_INTERVAL_val py_max_def
        two_minus_lit round_double_1_8 [simplified])
qed

lemma one_minus_press:
  "interval_val (presses (ord CHR ''-'') 1 (ctl (main host_list))) = round_double (22 / 10)"
  by (simp add: presses_def handle_key_minus main_def DEFAULT_INTERVAL_val
      two_plus_lit round_double_2_2 [simplified])

lemma lit_0_2_is_double: "round_double (3602879701896397 / 18014398509481984) = lit_0_2"
  by (simp add: lit_0_2_val) (simp add: double_eval)

lemma add_keeps_floor:
  assumes "py_le lit_0_2 v"
  shows "py_le lit_0_2 (py_add v lit_0_2)"
proof (cases v)
  case (Finite a)
  then have "3602879701896397 / 18014398509481984 \<le> a + 3602879701896397 / 18014398509481984"
    using assms by (simp add: lit_0_2_val)
  then have "py_le (round_double (3602879701896397 / 18014398509481984))
      (round_double (a + 3602879701896397 / 18014398509481984))"
    by (rule round_double_mono)
  then have "py_le lit_0_2 (round_double (a + 3602879701896397 / 18014398509481984))"
    by (simp only: lit_0_2_is_double)
  then show ?thesis
    using Finite by (simp add: lit_0_2_val)
next
  case PInf
  then show ?thesis by (simp add: lit_0_2_val)
next
  case NInf
  then show ?thesis using assms by (simp add: lit_0_2_val)
next
  case NaN
  then show ?thesis using assms by (simp add: lit_0_2_val)
qed

lemma handle_key_keeps_floor:
  assumes "py_le lit_0_2 (interval_val c)"
  shows "py_le lit_0_2 (interval_val (fst (handle_key k c)))"
  using assms add_keeps_floor [OF assms] py_le_py_max [of _ "py_sub (interval_val c) lit_0_2"]
  by (simp add: handle_key_def lit_0_2_val)

lemma worker_step_interval_same: "interval_val (fst (worker_step ev c w)) = interval_val c"
  by (cases ev) (auto simp: wait_done_def split_beta split: wait_result.splits)

lemma sys_step_keeps_floor:
  assumes "py_le lit_0_2 (interval_val (ctl s))"
  shows "py_le lit_0_2 (interval_val (ctl (sys_step s ev)))"
proof (cases ev)
  case (Key k)
  then show ?thesis
    using assms handle_key_keeps_floor [OF assms, of k] by (simp add: split_beta)
next
  case (Worker i wev)
  then show ?thesis
    using assms worker_step_interval_same [of wev "ctl s" "tasks s ! i"]
    by (simp add: split_beta)
qed

lemma run_keeps_floor:
  "py_le lit_0_2 (interval_val (ctl s)) \<Longrightarrow> py_le lit_0_2 (interval_val (ctl (run s evs)))"
  unfolding run_def
proof (induction evs arbitrary: s)
  case Nil
  then show ?case by simp
next
  case (Cons ev evs)
  show ?case
    using Cons.IH [OF sys_step_keeps_floor [OF Cons.prems, of ev]] by simp
qed

lemma minus_never_lowers:
  assumes "round_double a = Finite a"
  shows "py_le (Finite a) (py_add (Finite a) lit_0_2)"
proof -
  have "py_le (round_double a) (round_double (a + 3602879701896397 / 18014398509481984))"
    by (rule round_double_mono) simp
  then show ?thesis
    using assms by (simp add: lit_0_2_val)
qed

section \<open>The claims\<close>

text \<open>
  C1, as the program has it. When \<open>shutil.which\<close> finds no \<open>ping\<close> (\<open>None\<close>, or an
  empty path), nothing is checked at startup and nothing aborts: \<open>main\<close> starts the
  loop and one task per host whatever the machine has; each probe raises
  \<open>RuntimeError\<close> inside \<open>ping_host\<close> before any process is started; the worker
  catches it, records down (no round-trip time, the current time) on the record of its
  host and goes on to its wait, and the program keeps running.
\<close>

theorem C1_missing_ping_recorded_down:
  "running s \<and> i < length (tasks s) \<and> phase (tasks s ! i) = InFlight
     \<and> (which_ping env = None \<or> which_ping env = Some []) \<longrightarrow>
   ping_host env (host (status (tasks s ! i))) = ([], Inl RuntimeError)
   \<and> run s [Worker i (ProbeDone env now)]
       = s\<lparr>tasks := (tasks s)[i := (tasks s ! i)
              \<lparr>status := (status (tasks s ! i))
                  \<lparr>last_result := Some False, last_rtt := None, last_time := Some now\<rparr>,
               phase := Waiting\<rparr>]\<rparr>
   \<and> running (main host_list)
   \<and> map phase (tasks (main host_list)) = map (\<lambda>h. Probing) host_list"
proof (intro impI)
  assume a: "running s \<and> i < length (tasks s) \<and> phase (tasks s ! i) = InFlight
     \<and> (which_ping env = None \<or> which_ping env = Some [])"
  then have p: "ping_host env (host (status (tasks s ! i))) = ([], Inl RuntimeError)"
    by (intro missing_ping_raises) simp
  have m: "running (main host_list) \<and> map phase (tasks (main host_list)) = map (\<lambda>h. Probing) host_list"
    by (simp add: main_def comp_def)
  have "run s [Worker i (ProbeDone env now)]
       = s\<lparr>tasks := (tasks s)[i := (tasks s ! i)
              \<lparr>status := (status (tasks s ! i))
                  \<lparr>last_result := Some False, last_rtt := None, last_time := Some now\<rparr>,
               phase := Waiting\<rparr>]\<rparr>"
    using a p by (simp add: run_def probe_done_def record_result_def)
  with p m show "ping_host env (host (status (tasks s ! i))) = ([], Inl RuntimeError)
   \<and> run s [Worker i (ProbeDone env now)]
       = s\<lparr>tasks := (tasks s)[i := (tasks s ! i)
              \<lparr>status := (status (tasks s ! i))
                  \<lparr>last_result := Some False, last_rtt := None, last_time := Some now\<rparr>,
               phase := Waiting\<rparr>]\<rparr>
   \<and> running (main host_list)
   \<and> map phase (tasks (main host_list)) = map (\<lambda>h. Probing) host_list"
    by simp
qed

text \<open>
  The theorem at one host whose first probe is in flight on a machine without \<open>ping\<close>.
\<close>

theorem C1_missing_ping_recorded_down_witness:
  "running (run (main [''10.0.0.1'']) [Worker 0 CycleStart])
   \<and> 0 < length (tasks (run (main [''10.0.0.1'']) [Worker 0 CycleStart]))
   \<and> phase (tasks (run (main [''10.0.0.1'']) [Worker 0 CycleStart]) ! 0) = InFlight
   \<and> which_ping \<lparr>which_ping = None, exec_raises = None, communicated = TimedOut\<rparr> = None
   \<and> run (run (main [''10.0.0.1'']) [Worker 0 CycleStart])
        [Worker 0 (ProbeDone \<lparr>which_ping = None, exec_raises = None,
                              communicated = TimedOut\<rparr> 1)]
       = \<lparr>ctl = \<lparr>paused = False, interval_val = DEFAULT_INTERVAL, event_set = False\<rparr>,
          tasks = [\<lparr>status = \<lparr>host = ''10.0.0.1'', last_result = Some False,
                               last_rtt = None, last_time = Some 1\<rparr>,
                     phase = Waiting\<rparr>],
          running = True, log = []\<rparr>"
  using C1_missing_ping_recorded_down
    [of "run (main [''10.0.0.1'']) [Worker 0 CycleStart]" 0
      "\<lparr>which_ping = None, exec_raises = None, communicated = TimedOut\<rparr>" 1 "[]"]
  by (simp add: ex_inflight HostStatus_init_def)

text \<open>
  C1 as the specification states it (a fatal check before any task starts, never a down
  on a host record) fails: without \<open>ping\<close> the first probe of the host leaves the program
  running and the host recorded as down.
\<close>

theorem C1_counterexample:
  "running (run (main [''10.0.0.1''])
              [Worker 0 CycleStart,
               Worker 0 (ProbeDone \<lparr>which_ping = None, exec_raises = None,
                                     communicated = TimedOut\<rparr> 1)])
   \<and> map (\<lambda>w. (last_result (status w), phase w))
        (tasks (run (main [''10.0.0.1''])
                  [Worker 0 CycleStart,
                   Worker 0 (ProbeDone \<lparr>which_ping = None, exec_raises = None,
                                         communicated = TimedOut\<rparr> 1)]))
       = [(Some False, Waiting)]"
  by (simp add: run_def main_def HostStatus_init_def cycle_start_def probe_done_def
      ping_host_def record_result_def)

text \<open>
  C2. In every state the program reaches from its start, by any keys and any resumptions
  of its workers in any order, every host record has a round-trip time only when its
  result is up. The three assignments of an update are one step: no \<open>await\<close> stands
  between them, so no other coroutine sees a state between them.
\<close>

theorem C2_rtt_only_when_up:
  "\<forall>w \<in> set (tasks (run (main host_list) evs)). rtt_only_when_up (status w)"
  by (rule run_keeps_inv) (simp add: main_def HostStatus_init_def rtt_only_when_up_def)

text \<open>The theorem at a host that answered within 17.3 ms: the time is set, the result up.\<close>

theorem C2_rtt_only_when_up_witness:
  "last_rtt (status (tasks (run (main [''10.0.0.1''])
       [Worker 0 CycleStart,
        Worker 0 (ProbeDone \<lparr>which_ping = Some ''/bin/ping'', exec_raises = None,
                              communicated = Completed ''time=17.3 ms'' 0\<rparr> 7)]) ! 0))
     = Some (round_double (173 / 10))
   \<and> last_result (status (tasks (run (main [''10.0.0.1''])
       [Worker 0 CycleStart,
        Worker 0 (ProbeDone \<lparr>which_ping = Some ''/bin/ping'', exec_raises = None,
                              communicated = Completed ''time=17.3 ms'' 0\<rparr> 7)]) ! 0))
     = Some True"
proof -
  let ?s = "run (main [''10.0.0.1''])
       [Worker 0 CycleStart,
        Worker 0 (ProbeDone \<lparr>which_ping = Some ''/bin/ping'', exec_raises = None,
                              communicated = Completed ''time=17.3 ms'' 0\<rparr> 7)]"
  have p: "parse_output ''time=17.3 ms'' = (True, Some (round_double (173 / 10)))"
    using parse_output_17_3 [of "[]" "[]"] by simp
  have r: "last_rtt (status (tasks ?s ! 0)) = Some (round_double (173 / 10))"
    and l: "length (tasks ?s) = 1"
    by (simp_all add: run_def main_def HostStatus_init_def cycle_start_def probe_done_def
        ping_host_def record_result_def p)
  have "tasks ?s ! 0 \<in> set (tasks ?s)"
    using l by (intro nth_mem) simp
  then have "rtt_only_when_up (status (tasks ?s ! 0))"
    using C2_rtt_only_when_up [of "[''10.0.0.1'']"] by blast
  then show ?thesis
    using r by (simp add: rtt_only_when_up_def)
qed

text \<open>
  C3. The parser of the probe's output, lines 58 to 69. The token it reads is the one
  after the first \<open>time=\<close> of the output. When that is the one of \<open>time=17.3 ms\<close>, the
  result is up with the round-trip time 17.3 (the double nearest to 173/10, which is what
  the Python literal \<open>17.3\<close> denotes). An output in which \<open>time=\<close> does not occur gives
  down. When the first \<open>time=\<close> is the one of \<open>time=abc ms\<close>, the token \<open>abc\<close> is no
  float and the result is up with no round-trip time. Wherever they stand in the output,
  \<open>time=17.3 ms\<close> and \<open>time=abc ms\<close> give up, never down.
\<close>

theorem C3_parse_output:
  "(\<not> sublist ''time='' pre \<longrightarrow>
      parse_output (pre @ ''time=17.3 ms'' @ post) = (True, Some (round_double (173 / 10))))
   \<and> (\<not> sublist ''time='' out \<longrightarrow> parse_output out = (False, None))
   \<and> (\<not> sublist ''time='' pre \<longrightarrow>
      parse_output (pre @ ''time=abc ms'' @ post) = (True, None))
   \<and> fst (parse_output (pre @ ''time=17.3 ms'' @ post))
   \<and> fst (parse_output (pre @ ''time=abc ms'' @ post))"
proof -
  have "sublist ''time='' (pre @ ''time=17.3 ms'' @ post)"
    unfolding sublist_def by (intro exI [of _ pre] exI [of _ "''17.3 ms'' @ post"]) simp
  moreover have "sublist ''time='' (pre @ ''time=abc ms'' @ post)"
    unfolding sublist_def by (intro exI [of _ pre] exI [of _ "''abc ms'' @ post"]) simp
  ultimately show ?thesis
    using parse_output_17_3 [of pre post] parse_output_no_marker [of out]
      parse_output_abc [of pre post]
    by (simp add: parse_output_up_iff)
qed

text \<open>
  The theorem at a reply line of \<open>ping\<close>, at a summary without a reply, and at a reply
  line whose time is not a number.
\<close>

theorem C3_parse_output_witness:
  "\<not> sublist ''time='' ''64 bytes: ttl=64 ''
   \<and> parse_output (''64 bytes: ttl=64 '' @ ''time=17.3 ms'' @ ''; 1 received'')
       = (True, Some (round_double (173 / 10)))
   \<and> \<not> sublist ''time='' ''0 received, time 0ms''
   \<and> parse_output ''0 received, time 0ms'' = (False, None)
   \<and> parse_output (''64 bytes: ttl=64 '' @ ''time=abc ms'' @ ''; 1 received'') = (True, None)"
proof -
  have a: "\<not> sublist ''time='' ''64 bytes: ttl=64 ''"
    unfolding find_sub_None_iff [symmetric] by simp
  have b: "\<not> sublist ''time='' ''0 received, time 0ms''"
    unfolding find_sub_None_iff [symmetric] by simp
  show ?thesis
    using a b
      C3_parse_output [of "''64 bytes: ttl=64 ''" "''; 1 received''" "''0 received, time 0ms''"]
    by blast
qed

text \<open>
  C4. The key \<open>+\<close> sets the interval to \<open>max(0.2, val - 0.2)\<close>, which is at least 0.2
  whatever the interval was; from the default 2.0 one press gives 1.8, and any number of
  presses leaves the interval at least 0.2, as does any run of the program. The key \<open>-\<close>
  sets the interval to \<open>val + 0.2\<close> with no bound applied; from the default one press
  gives 2.2, and the sum is never below the interval it was formed from. The numbers are
  floats: 0.2, 1.8 and 2.2 are the doubles nearest to 2/10, 18/10 and 22/10, and the
  difference and the sum are rounded as Python rounds them.
\<close>

theorem C4_interval_keys:
  "handle_key (ord CHR ''+'') c
     = (c\<lparr>interval_val := py_max lit_0_2 (py_sub (interval_val c) lit_0_2)\<rparr>, True)
   \<and> py_le lit_0_2 (interval_val (fst (handle_key (ord CHR ''+'') c)))
   \<and> interval_val (ctl (main host_list)) = round_double 2
   \<and> interval_val (presses (ord CHR ''+'') 1 (ctl (main host_list))) = round_double (18 / 10)
   \<and> py_le lit_0_2 (interval_val (presses (ord CHR ''+'') n (ctl (main host_list))))
   \<and> py_le lit_0_2 (interval_val (ctl (run (main host_list) evs)))
   \<and> handle_key (ord CHR ''-'') c
       = (c\<lparr>interval_val := py_add (interval_val c) lit_0_2\<rparr>, True)
   \<and> interval_val (presses (ord CHR ''-'') 1 (ctl (main host_list))) = round_double (22 / 10)
   \<and> (interval_val c = Finite a \<and> round_double a = Finite a \<longrightarrow>
        py_le (interval_val c) (interval_val (fst (handle_key (ord CHR ''-'') c))))"
proof -
  have "py_le lit_0_2 (interval_val (ctl (main host_list)))"
    by (simp add: main_def DEFAULT_INTERVAL_val lit_0_2_val)
  then have "py_le lit_0_2 (interval_val (ctl (run (main host_list) evs)))"
    by (rule run_keeps_floor)
  moreover have "interval_val c = Finite a \<and> round_double a = Finite a \<longrightarrow>
        py_le (interval_val c) (interval_val (fst (handle_key (ord CHR ''-'') c)))"
    using minus_never_lowers [of a] by (simp add: handle_key_minus)
  ultimately show ?thesis
    using handle_key_plus [of c] floor_after_plus [of c] one_plus_press [of host_list]
      floor_after_presses [of n host_list] handle_key_minus [of c] one_minus_press [of host_list]
    by (simp add: main_def DEFAULT_INTERVAL_def)
qed

text \<open>
  The theorem at the start of the program: the default 2.0 is a double, and after one
  \<open>-\<close> the interval is 2.2, which is not below 2.0; after one \<open>+\<close> it is 1.8.
\<close>

theorem C4_interval_keys_witness:
  "interval_val (ctl (main [''10.0.0.1''])) = Finite 2
   \<and> round_double 2 = Finite 2
   \<and> py_le (Finite 2) (interval_val (fst (handle_key (ord CHR ''-'') (ctl (main [''10.0.0.1''])))))
   \<and> interval_val (fst (handle_key (ord CHR ''-'') (ctl (main [''10.0.0.1''])))) = round_double (22 / 10)
   \<and> interval_val (fst (handle_key (ord CHR ''+'') (ctl (main [''10.0.0.1''])))) = round_double (18 / 10)"
proof -
  have d: "round_double 2 = Finite 2"
    by (simp add: double_eval)
  have i: "interval_val (ctl (main [''10.0.0.1''])) = Finite 2"
    by (simp add: main_def DEFAULT_INTERVAL_val)
  show ?thesis
    using C4_interval_keys [of "ctl (main [''10.0.0.1''])" "[''10.0.0.1'']" 1 "[]" 2] d i
    by (auto simp add: presses_def handle_key_plus handle_key_minus)
qed



text \<open>
  C6. A probe fails when \<open>ping_host\<close> ends with an exception of class \<open>Exception\<close>
  (\<open>ping\<close> not found, the process not started, the wait for it raising) or when the
  wait for the process runs into the time bound. The worker in flight then records down
  (no round-trip time, the current time) on the record of its host and goes on to its
  wait: it is not terminated and nothing leaves the loop. When it was the time bound,
  what \<open>ping_host\<close> did to the outside is to start the process and to kill it.
\<close>

theorem C6_probe_failure_recorded_down:
  "probe_failed env \<and> phase w = InFlight \<longrightarrow>
     worker_step (ProbeDone env now) c w
       = (c,
          w\<lparr>status := (status w)\<lparr>last_result := Some False, last_rtt := None,
                                   last_time := Some now\<rparr>,
            phase := Waiting\<rparr>,
          fst (ping_host env (host (status w))))
     \<and> (\<forall>p. which_ping env = Some p \<and> p \<noteq> [] \<and> exec_raises env = None
              \<and> communicated env = TimedOut \<longrightarrow>
            fst (ping_host env (host (status w)))
              = [Spawn [p, ''-c'', ''1'', ''-W'', ''1'', host (status w)], Kill])"
proof (intro impI conjI allI)
  assume a: "probe_failed env \<and> phase w = InFlight"
  obtain acts where
    "ping_host env (host (status w)) = (acts, Inr (False, None))
       \<or> (\<exists>e. ping_host env (host (status w)) = (acts, Inl e) \<and> is_Exception e)"
    using probe_failed_result a by blast
  then show "worker_step (ProbeDone env now) c w
       = (c,
          w\<lparr>status := (status w)\<lparr>last_result := Some False, last_rtt := None,
                                   last_time := Some now\<rparr>,
            phase := Waiting\<rparr>,
          fst (ping_host env (host (status w))))"
    using a by (auto simp: probe_done_def record_result_def)
next
  fix p
  assume "which_ping env = Some p \<and> p \<noteq> [] \<and> exec_raises env = None
              \<and> communicated env = TimedOut"
  then show "fst (ping_host env (host (status w)))
              = [Spawn [p, ''-c'', ''1'', ''-W'', ''1'', host (status w)], Kill]"
    by (simp add: ping_host_def)
qed

text \<open>The theorem at a host whose \<open>ping\<close> does not end within the time bound.\<close>

theorem C6_probe_failure_recorded_down_witness:
  "probe_failed \<lparr>which_ping = Some ''/bin/ping'', exec_raises = None, communicated = TimedOut\<rparr>
   \<and> phase \<lparr>status = HostStatus_init ''10.0.0.2'', phase = InFlight\<rparr> = InFlight
   \<and> worker_step
        (ProbeDone \<lparr>which_ping = Some ''/bin/ping'', exec_raises = None,
                     communicated = TimedOut\<rparr> 9)
        \<lparr>paused = False, interval_val = DEFAULT_INTERVAL, event_set = False\<rparr>
        \<lparr>status = HostStatus_init ''10.0.0.2'', phase = InFlight\<rparr>
       = (\<lparr>paused = False, interval_val = DEFAULT_INTERVAL, event_set = False\<rparr>,
          \<lparr>status = \<lparr>host = ''10.0.0.2'', last_result = Some False, last_rtt = None,
                      last_time = Some 9\<rparr>,
            phase = Waiting\<rparr>,
          [Spawn [''/bin/ping'', ''-c'', ''1'', ''-W'', ''1'', ''10.0.0.2''], Kill])"
  using C6_probe_failure_recorded_down
    [of "\<lparr>which_ping = Some ''/bin/ping'', exec_raises = None, communicated = TimedOut\<rparr>"
      "\<lparr>status = HostStatus_init ''10.0.0.2'', phase = InFlight\<rparr>" 9
      "\<lparr>paused = False, interval_val = DEFAULT_INTERVAL, event_set = False\<rparr>"]
  by (simp add: probe_failed_def HostStatus_init_def)

text \<open>
  C7. For a worker in its wait: when the wait ends because the event is set, the worker
  clears the event; when it ends because the interval has passed, the shared objects
  are as they were, the event set or not. Either way the worker is back at the head of
  its loop, where the probing step begins.
\<close>

theorem C7_wake_consumes_signal:
  "phase w = Waiting \<longrightarrow>
     worker_step (WaitDone EventFired) c w = (c\<lparr>event_set := False\<rparr>, w\<lparr>phase := Probing\<rparr>, [])
     \<and> worker_step (WaitDone TimeoutExpired) c w = (c, w\<lparr>phase := Probing\<rparr>, [])"
  by (simp add: wait_done_def)

text \<open>The theorem at a waiting worker while the event is set.\<close>

theorem C7_wake_consumes_signal_witness:
  "phase \<lparr>status = HostStatus_init ''10.0.0.1'', phase = Waiting\<rparr> = Waiting
   \<and> worker_step (WaitDone EventFired)
        \<lparr>paused = False, interval_val = DEFAULT_INTERVAL, event_set = True\<rparr>
        \<lparr>status = HostStatus_init ''10.0.0.1'', phase = Waiting\<rparr>
       = (\<lparr>paused = False, interval_val = DEFAULT_INTERVAL, event_set = False\<rparr>,
          \<lparr>status = HostStatus_init ''10.0.0.1'', phase = Probing\<rparr>, [])
   \<and> worker_step (WaitDone TimeoutExpired)
        \<lparr>paused = False, interval_val = DEFAULT_INTERVAL, event_set = True\<rparr>
        \<lparr>status = HostStatus_init ''10.0.0.1'', phase = Waiting\<rparr>
       = (\<lparr>paused = False, interval_val = DEFAULT_INTERVAL, event_set = True\<rparr>,
          \<lparr>status = HostStatus_init ''10.0.0.1'', phase = Probing\<rparr>, [])"
  using C7_wake_consumes_signal
    [of "\<lparr>status = HostStatus_init ''10.0.0.1'', phase = Waiting\<rparr>"
      "\<lparr>paused = False, interval_val = DEFAULT_INTERVAL, event_set = True\<rparr>"]
  by simp

text \<open>
  C8, at the point where the code leaves it. Lines 163 to 166 cancel every task and
  wait for all of them; \<open>t.cancel()\<close> raises \<open>CancelledError\<close> in the worker at the
  \<open>await\<close> it is suspended in. No handler of the worker catches it, so a worker
  cancelled in its wait and a worker cancelled while its probe is in flight both end
  cancelled. But the worker cancelled in flight has started \<open>ping\<close> and does not kill
  it: \<open>proc.kill()\<close> stands only under \<open>except asyncio.TimeoutError\<close> (lines 54 to 56),
  so \<open>Kill\<close> is among the actions of \<open>ping_host\<close> exactly when the wait for the process
  ran into the time bound. The process of a probe that was in flight at the exit is left
  running when its task, and with it the loop of \<open>refresher\<close>, has ended.
\<close>

theorem C8_cancelled_probe_not_killed:
  "worker_step
     (ProbeDone \<lparr>which_ping = Some (x # xs), exec_raises = None,
                  communicated = CommRaised CancelledError\<rparr> now)
     c \<lparr>status = hs, phase = InFlight\<rparr>
     = (c, \<lparr>status = hs, phase = Terminated CancelledError\<rparr>,
        [Spawn [x # xs, ''-c'', ''1'', ''-W'', ''1'', host hs]])
   \<and> worker_step (WaitDone (WaitRaised CancelledError)) c \<lparr>status = hs, phase = Waiting\<rparr>
     = (c, \<lparr>status = hs, phase = Terminated CancelledError\<rparr>, [])
   \<and> (Kill \<in> set (fst (ping_host env h))
        \<longleftrightarrow> (\<exists>p. which_ping env = Some p \<and> p \<noteq> [] \<and> exec_raises env = None
                  \<and> communicated env = TimedOut))"
proof (intro conjI)
  show "worker_step
     (ProbeDone \<lparr>which_ping = Some (x # xs), exec_raises = None,
                  communicated = CommRaised CancelledError\<rparr> now)
     c \<lparr>status = hs, phase = InFlight\<rparr>
     = (c, \<lparr>status = hs, phase = Terminated CancelledError\<rparr>,
        [Spawn [x # xs, ''-c'', ''1'', ''-W'', ''1'', host hs]])"
    by (simp add: probe_done_def ping_host_def)
  show "worker_step (WaitDone (WaitRaised CancelledError)) c \<lparr>status = hs, phase = Waiting\<rparr>
     = (c, \<lparr>status = hs, phase = Terminated CancelledError\<rparr>, [])"
    by (simp add: wait_done_def)
  show "Kill \<in> set (fst (ping_host env h))
        \<longleftrightarrow> (\<exists>p. which_ping env = Some p \<and> p \<noteq> [] \<and> exec_raises env = None
                  \<and> communicated env = TimedOut)"
    by (rule kill_only_on_timeout)
qed

text \<open>
  The theorem at one host whose first probe is in flight, \<open>ping\<close> started, when \<open>q\<close> is
  pressed: the loop has ended, the worker ends cancelled, and all that was done to the
  process is to start it.
\<close>

theorem C8_cancelled_probe_not_killed_witness:
  "\<not> running (run (main [''10.0.0.1'']) [Worker 0 CycleStart, Key (ord CHR ''q'')])
   \<and> worker_step
        (ProbeDone \<lparr>which_ping = Some ''/bin/ping'', exec_raises = None,
                     communicated = CommRaised CancelledError\<rparr> 9)
        (ctl (run (main [''10.0.0.1'']) [Worker 0 CycleStart, Key (ord CHR ''q'')]))
        (tasks (run (main [''10.0.0.1'']) [Worker 0 CycleStart, Key (ord CHR ''q'')]) ! 0)
       = (\<lparr>paused = False, interval_val = DEFAULT_INTERVAL, event_set = False\<rparr>,
          \<lparr>status = HostStatus_init ''10.0.0.1'', phase = Terminated CancelledError\<rparr>,
          [Spawn [''/bin/ping'', ''-c'', ''1'', ''-W'', ''1'', ''10.0.0.1'']])
   \<and> Kill \<notin> set (fst (ping_host \<lparr>which_ping = Some ''/bin/ping'', exec_raises = None,
                                      communicated = CommRaised CancelledError\<rparr> ''10.0.0.1''))"
  using C8_cancelled_probe_not_killed
    [of "CHR ''/''" "''bin/ping''" 9
      "\<lparr>paused = False, interval_val = DEFAULT_INTERVAL, event_set = False\<rparr>"
      "HostStatus_init ''10.0.0.1''"
      "\<lparr>which_ping = Some ''/bin/ping'', exec_raises = None,
        communicated = CommRaised CancelledError\<rparr>" "''10.0.0.1''"]
  by (simp add: ex_quit_inflight HostStatus_init_def)

text \<open>
  C9. When \<open>ping\<close> was found and started and its output arrived in time, the result of
  \<open>ping_host\<close> does not depend on the exit status of the process, and it is up exactly
  when \<open>time=\<close> occurs in the decoded standard output.
\<close>

theorem C9_exit_status_ignored:
  "p \<noteq> [] \<longrightarrow>
     ping_host \<lparr>which_ping = Some p, exec_raises = None, communicated = Completed out rc\<rparr> h
       = ping_host \<lparr>which_ping = Some p, exec_raises = None, communicated = Completed out rc'\<rparr> h
     \<and> (\<exists>rtt. snd (ping_host \<lparr>which_ping = Some p, exec_raises = None,
                                communicated = Completed out rc\<rparr> h)
                = Inr (sublist ''time='' out, rtt))"
proof (intro impI conjI)
  assume p: "p \<noteq> []"
  show "ping_host \<lparr>which_ping = Some p, exec_raises = None, communicated = Completed out rc\<rparr> h
       = ping_host \<lparr>which_ping = Some p, exec_raises = None, communicated = Completed out rc'\<rparr> h"
    using p by (simp add: ping_host_def)
  have "parse_output out = (sublist ''time='' out, snd (parse_output out))"
    using parse_output_up_iff [of out] by (cases "parse_output out") simp
  then show "\<exists>rtt. snd (ping_host \<lparr>which_ping = Some p, exec_raises = None,
                                communicated = Completed out rc\<rparr> h)
                = Inr (sublist ''time='' out, rtt)"
    using p by (auto simp: ping_host_def)
qed

text \<open>
  The theorem at a process that prints \<open>time=\<close> and exits with status 1, which is up, and
  at one that prints no \<open>time=\<close> and exits with status 0, which is down.
\<close>

theorem C9_exit_status_ignored_witness:
  "''/bin/ping'' \<noteq> []
   \<and> (\<exists>rtt. snd (ping_host \<lparr>which_ping = Some ''/bin/ping'', exec_raises = None,
                              communicated = Completed ''reply time=1 ms'' 1\<rparr> ''10.0.0.1'')
              = Inr (True, rtt))
   \<and> (\<exists>rtt. snd (ping_host \<lparr>which_ping = Some ''/bin/ping'', exec_raises = None,
                              communicated = Completed ''no reply'' 0\<rparr> ''10.0.0.1'')
              = Inr (False, rtt))"
proof -
  have a: "sublist ''time='' ''reply time=1 ms''"
    using find_sub_None_iff [of "''time=''" "''reply time=1 ms''"] by simp
  have b: "\<not> sublist ''time='' ''no reply''"
    using find_sub_None_iff [of "''time=''" "''no reply''"] by simp
  show ?thesis
    using C9_exit_status_ignored [of "''/bin/ping''" "''reply time=1 ms''" 1 "''10.0.0.1''" 1]
      C9_exit_status_ignored [of "''/bin/ping''" "''no reply''" 0 "''10.0.0.1''" 0] a b
    by simp
qed

text \<open>
  C10. While the pause flag is set and a worker waits, the key \<open>u\<close> sets the event; the
  wait of the worker ends and the worker clears the event; at the head of its loop it
  finds the pause flag set and goes back to its wait. After the three steps the program
  is in the state it was in, with the event not set: no process was started, the record
  of the host is unchanged, and the request is gone.
\<close>

theorem C10_update_request_lost_while_paused:
  "running s \<and> paused (ctl s) \<and> i < length (tasks s) \<and> phase (tasks s ! i) = Waiting \<longrightarrow>
     run s [Key (ord CHR ''u''), Worker i (WaitDone EventFired)]
       = s\<lparr>ctl := (ctl s)\<lparr>event_set := False\<rparr>,
            tasks := (tasks s)[i := (tasks s ! i)\<lparr>phase := Probing\<rparr>]\<rparr>
     \<and> run s [Key (ord CHR ''u''), Worker i (WaitDone EventFired), Worker i CycleStart]
       = s\<lparr>ctl := (ctl s)\<lparr>event_set := False\<rparr>\<rparr>"
proof (intro impI)
  assume a: "running s \<and> paused (ctl s) \<and> i < length (tasks s) \<and> phase (tasks s ! i) = Waiting"
  define s1 where "s1 = sys_step s (Key (ord CHR ''u''))"
  define s2 where "s2 = sys_step s1 (Worker i (WaitDone EventFired))"
  define s3 where "s3 = sys_step s2 (Worker i CycleStart)"
  have s1: "s1 = s\<lparr>ctl := (ctl s)\<lparr>event_set := True\<rparr>\<rparr>"
    using a by (simp add: s1_def handle_key_u running_True_id)
  have s2: "s2 = s\<lparr>ctl := (ctl s)\<lparr>event_set := False\<rparr>,
                   tasks := (tasks s)[i := (tasks s ! i)\<lparr>phase := Probing\<rparr>]\<rparr>"
    using a by (simp add: s2_def s1 wait_done_def)
  have "s3 = s\<lparr>ctl := (ctl s)\<lparr>event_set := False\<rparr>,
                tasks := (tasks s)[i := (tasks s ! i)\<lparr>phase := Waiting\<rparr>]\<rparr>"
    using a by (simp add: s3_def s2 cycle_start_def)
  then have s3: "s3 = s\<lparr>ctl := (ctl s)\<lparr>event_set := False\<rparr>\<rparr>"
    using a by (simp add: phase_upd_id)
  show "run s [Key (ord CHR ''u''), Worker i (WaitDone EventFired)]
       = s\<lparr>ctl := (ctl s)\<lparr>event_set := False\<rparr>,
            tasks := (tasks s)[i := (tasks s ! i)\<lparr>phase := Probing\<rparr>]\<rparr>
     \<and> run s [Key (ord CHR ''u''), Worker i (WaitDone EventFired), Worker i CycleStart]
       = s\<lparr>ctl := (ctl s)\<lparr>event_set := False\<rparr>\<rparr>"
    using s2 s3 by (simp add: run_def s1_def s2_def s3_def)
qed

text \<open>The theorem at one host paused before its first probe.\<close>

theorem C10_update_request_lost_while_paused_witness:
  "running (run (main [''10.0.0.1'']) [Key (ord CHR ''p''), Worker 0 CycleStart])
   \<and> paused (ctl (run (main [''10.0.0.1'']) [Key (ord CHR ''p''), Worker 0 CycleStart]))
   \<and> phase (tasks (run (main [''10.0.0.1'']) [Key (ord CHR ''p''), Worker 0 CycleStart]) ! 0)
       = Waiting
   \<and> run (run (main [''10.0.0.1'']) [Key (ord CHR ''p''), Worker 0 CycleStart])
        [Key (ord CHR ''u''), Worker 0 (WaitDone EventFired), Worker 0 CycleStart]
       = run (main [''10.0.0.1'']) [Key (ord CHR ''p''), Worker 0 CycleStart]"
  using C10_update_request_lost_while_paused
    [of "run (main [''10.0.0.1'']) [Key (ord CHR ''p''), Worker 0 CycleStart]" 0]
  by (simp add: ex_paused_waiting)

end
